theory Spec2Isabelle
  imports Main "HOL-Library.Word"
begin

section \<open>The index manager of secondary/manager/manager.go\<close>

text \<open>
  The development embeds \<^verbatim>\<open>secondary/manager/manager.go\<close>. The collaborators of the
  index manager (Coordinator, MetadataRepo, Timer, StreamManager, the marshalling helpers
  and the package constants) are declared elsewhere in the package: where a function of
  manager.go calls one of them, the call's result is an argument of the model, and the
  call itself is written to a log of calls, so that what the manager asks of its
  collaborators can be read back.
\<close>

subsection \<open>Values\<close>

type_synonym uint64 = "64 word"
type_synonym bytes = "8 word list"

text \<open>A pointer to an object of a collaborator: its identity.\<close>
type_synonym ref = nat

text \<open>\<^verbatim>\<open>common.StreamId\<close>, an integer type; its width is not used by manager.go.\<close>
type_synonym StreamId = nat

text \<open>The fields of \<^verbatim>\<open>common.IndexDefn\<close> that manager.go reads.\<close>
record IndexDefn =
  Bucket :: string
  Name :: string

datatype OpCode = OPCODE_ADD_IDX_DEFN | OPCODE_DEL_IDX_DEFN | OPCODE_NOTIFY_TIMESTAMP

datatype errCode = ERROR_MGR_DDL_CREATE_IDX | ERROR_MGR_DDL_DROP_IDX
datatype errSeverity = FATAL | NORMAL
datatype errCategory = INDEX_MANAGER

text \<open>
  A Go \<^verbatim>\<open>error\<close> that is not nil: either one built by \<^verbatim>\<open>NewError\<close> in manager.go, or one
  handed back by a collaborator. A nil error is \<open>None\<close> of \<open>error option\<close>.
\<close>
datatype error =
    NewError errCode errSeverity errCategory string
  | CollaboratorError string

text \<open>The arguments of one \<^verbatim>\<open>Coordinator.NewRequest(id, opcode, key, content)\<close>.\<close>
record request =
  req_id :: uint64
  opcode :: OpCode
  req_key :: string
  content :: bytes

subsection \<open>Index DDL\<close>

text \<open>
  \<^verbatim>\<open>HandleCreateIndexDDL\<close>. \<open>marshallIndexDefn\<close> and \<open>indexName\<close> are the package's helpers,
  \<open>coordinator_NewRequest\<close> is the answer of the coordinator to a request and \<open>now\<close> is
  \<^verbatim>\<open>uint64(time.Now().UnixNano())\<close>. The result is the list of the requests submitted and
  the error returned (\<open>None\<close> for nil).
\<close>
definition HandleCreateIndexDDL ::
  "(IndexDefn \<Rightarrow> error + bytes) \<Rightarrow> (string \<Rightarrow> string \<Rightarrow> string) \<Rightarrow> (request \<Rightarrow> bool)
     \<Rightarrow> uint64 \<Rightarrow> IndexDefn \<Rightarrow> request list \<times> error option" where
  "HandleCreateIndexDDL marshallIndexDefn indexName coordinator_NewRequest now defn =
     (case marshallIndexDefn defn of
        Inl err \<Rightarrow> ([], Some err)
      | Inr cont \<Rightarrow>
          (let rq = \<lparr>req_id = now, opcode = OPCODE_ADD_IDX_DEFN,
                     req_key = indexName (Bucket defn) (Name defn), content = cont\<rparr>
           in if \<not> coordinator_NewRequest rq
              then ([rq], Some (NewError ERROR_MGR_DDL_CREATE_IDX NORMAL INDEX_MANAGER
                     (''Fail to complete processing create index statement for index ''
                        @ [CHR 0x27] @ Name defn @ [CHR 0x27])))
              else ([rq], None)))"

text \<open>\<^verbatim>\<open>HandleDeleteIndexDDL\<close>; the content of its request is nil, the empty byte list.\<close>
definition HandleDeleteIndexDDL ::
  "(string \<Rightarrow> string \<Rightarrow> string) \<Rightarrow> (request \<Rightarrow> bool)
     \<Rightarrow> uint64 \<Rightarrow> string \<Rightarrow> string \<Rightarrow> request list \<times> error option" where
  "HandleDeleteIndexDDL indexName coordinator_NewRequest now bucket name =
     (let rq = \<lparr>req_id = now, opcode = OPCODE_DEL_IDX_DEFN,
                req_key = indexName bucket name, content = []\<rparr>
      in if \<not> coordinator_NewRequest rq
         then ([rq], Some (NewError ERROR_MGR_DDL_DROP_IDX NORMAL INDEX_MANAGER
                (''Fail to complete processing delete index statement for index ''
                   @ [CHR 0x27] @ name @ [CHR 0x27])))
         else ([rq], None))"

subsection \<open>The timestamp keeper\<close>

text \<open>
  The element read from the timer's output channel and handed to
  \<^verbatim>\<open>marshallTimestampSerializable\<close>: a \<^verbatim>\<open>timestampSerializable\<close>, of which manager.go reads
  the fields \<^verbatim>\<open>StreamId\<close> and \<^verbatim>\<open>Timestamp\<close> (in \<^verbatim>\<open>notifyNewTimestamp\<close>).
\<close>
record timestampSerializable =
  StreamId :: nat
  Timestamp :: bytes

text \<open>
  What one pass through the body of the loop reads from outside: the clock at the test of
  the interval, the value of \<^verbatim>\<open>m.timestampPersistInterval\<close> at that moment, the error of
  \<^verbatim>\<open>m.repo.SetStabilityTimestamps\<close> (\<open>None\<close> for nil), the clock after a successful save
  and the clock that gives the request its id.
\<close>
record iteration =
  now_check :: uint64
  persistInterval :: uint64
  set_err :: "error option"
  now_saved :: uint64
  now_id :: uint64

text \<open>The calls the keeper makes on the repository and on the coordinator.\<close>
datatype 'tl keeper_call =
    SetStabilityTimestamps 'tl "error option"
  | Coordinator_NewRequest request

text \<open>
  The local variables of \<^verbatim>\<open>runTimestampKeeper\<close> and the calls made so far. \<open>'tl\<close> is the
  type of the collection returned by \<^verbatim>\<open>GetStabilityTimestamps\<close>.
\<close>
record 'tl keeper =
  timestamps :: 'tl
  persistTimestamp :: bool
  lastPersistTime :: uint64
  made :: "'tl keeper_call list"

text \<open>
  The function passed to \<^verbatim>\<open>gometa.SafeRun\<close> for one incoming timestamp. \<open>addTs\<close> is the
  collection's \<^verbatim>\<open>addTimestamp\<close> and \<open>marshal\<close> is \<^verbatim>\<open>marshallTimestampSerializable\<close>.
  The answer of \<^verbatim>\<open>NewRequest\<close> is dropped by the code.
\<close>
definition keeper_body ::
  "('tl \<Rightarrow> 'ts \<Rightarrow> 'tl) \<Rightarrow> ('ts \<Rightarrow> error + bytes) \<Rightarrow> 'tl keeper \<Rightarrow> 'ts \<Rightarrow> iteration \<Rightarrow> 'tl keeper" where
  "keeper_body addTs marshal k timestamp it =
     (let k1 = k\<lparr>timestamps := addTs (timestamps k) timestamp\<rparr>;
          k2 = k1\<lparr>persistTimestamp :=
                 (persistTimestamp k1 \<or> now_check it - lastPersistTime k1 > persistInterval it)\<rparr>;
          k3 = (if persistTimestamp k2 then
                  (case set_err it of
                     Some err \<Rightarrow>
                       k2\<lparr>made := made k2 @ [SetStabilityTimestamps (timestamps k2) (Some err)]\<rparr>
                   | None \<Rightarrow>
                       k2\<lparr>made := made k2 @ [SetStabilityTimestamps (timestamps k2) None],
                          persistTimestamp := False,
                          lastPersistTime := now_saved it\<rparr>)
                else k2)
      in (case marshal timestamp of
            Inl err \<Rightarrow> k3
          | Inr data \<Rightarrow>
              k3\<lparr>made := made k3 @ [Coordinator_NewRequest
                     \<lparr>req_id = now_id it, opcode = OPCODE_NOTIFY_TIMESTAMP,
                      req_key = ''Stability Timestamp'', content = data\<rparr>]\<rparr>))"

text \<open>
  What the \<^verbatim>\<open>select\<close> of the loop takes next: the stop channel, the inbound channel found
  closed, or a timestamp from the inbound channel. This is the goroutine's own view. Which
  case the \<^verbatim>\<open>select\<close> can take is settled by \<open>system_step\<close> below: the stop case is
  taken only when the channel read from \<^verbatim>\<open>m.timekeeperStopCh\<close> on entering the \<^verbatim>\<open>select\<close>
  is not nil and has been closed.
\<close>
datatype 'ts event = Stop | InboundClosed | Inbound 'ts iteration

datatype status = Running | Returned

text \<open>
  The \<^verbatim>\<open>for { select { ... } }\<close> of \<^verbatim>\<open>runTimestampKeeper\<close> over the events taken so far.
  The loop has no exit of its own: with no event left it is waiting in \<^verbatim>\<open>select\<close>.
\<close>
fun keeper_loop ::
  "('tl \<Rightarrow> 'ts \<Rightarrow> 'tl) \<Rightarrow> ('ts \<Rightarrow> error + bytes) \<Rightarrow> 'tl keeper \<Rightarrow> 'ts event list
     \<Rightarrow> status \<times> 'tl keeper" where
  "keeper_loop addTs marshal k [] = (Running, k)"
| "keeper_loop addTs marshal k (Stop # es) = (Returned, k)"
| "keeper_loop addTs marshal k (InboundClosed # es) = (Returned, k)"
| "keeper_loop addTs marshal k (Inbound timestamp it # es) =
     keeper_loop addTs marshal (keeper_body addTs marshal k timestamp it) es"

text \<open>
  The variables of \<^verbatim>\<open>runTimestampKeeper\<close> when it enters the loop: \<open>now\<close> is the clock,
  \<open>got\<close> the result of \<^verbatim>\<open>m.repo.GetStabilityTimestamps()\<close> and \<open>created\<close> the value of
  \<^verbatim>\<open>createTimestampListSerializable()\<close>.
\<close>
definition keeper_start :: "uint64 \<Rightarrow> error + 'tl \<Rightarrow> 'tl \<Rightarrow> 'tl keeper" where
  "keeper_start now got created =
     \<lparr>timestamps = (case got of Inl err \<Rightarrow> created | Inr ts \<Rightarrow> ts),
      persistTimestamp = True,
      lastPersistTime = now,
      made = []\<rparr>"

definition runTimestampKeeper ::
  "('tl \<Rightarrow> 'ts \<Rightarrow> 'tl) \<Rightarrow> ('ts \<Rightarrow> error + bytes) \<Rightarrow> uint64 \<Rightarrow> error + 'tl \<Rightarrow> 'tl
     \<Rightarrow> 'ts event list \<Rightarrow> status \<times> 'tl keeper" where
  "runTimestampKeeper addTs marshal now got created es =
     keeper_loop addTs marshal (keeper_start now got created) es"

text \<open>The saves to the repository among the calls, with their outcome.\<close>
fun saves :: "'tl keeper_call list \<Rightarrow> ('tl \<times> error option) list" where
  "saves [] = []"
| "saves (SetStabilityTimestamps ts r # cs) = (ts, r) # saves cs"
| "saves (Coordinator_NewRequest rq # cs) = saves cs"

text \<open>The requests submitted to the coordinator among the calls.\<close>
fun submitted :: "'tl keeper_call list \<Rightarrow> request list" where
  "submitted [] = []"
| "submitted (SetStabilityTimestamps ts r # cs) = submitted cs"
| "submitted (Coordinator_NewRequest rq # cs) = rq # submitted cs"

subsection \<open>The index manager and the objects it holds\<close>

text \<open>
  A Go channel: its capacity, the elements waiting in it, and whether it was closed.
  \<^verbatim>\<open>len(ch)\<close> is the length of \<open>buffer\<close>.
\<close>
record 'a chan =
  capacity :: nat
  buffer :: "'a list"
  closed :: bool

text \<open>
  The calls the manager makes on the objects it holds, in the order it makes them. A
  constructor carries the reference of the object it returned.
\<close>
datatype call =
    NewMetadataRepo ref
  | NewRequestHandler ref
  | newEventManager ref
  | NewCoordinator ref
  | go_Coordinator_Run ref
  | MetadataRepo_Close ref
  | Coordinator_Terminate ref
  | eventManager_close ref
  | requestHandler_close ref
  | newTimer ref
  | make_timekeeperStopCh ref
  | go_runTimestampKeeper
  | NewStreamMonitor
  | NewProjectorAdmin
  | StreamAdmin_Initialize ref
  | NewMgrMutHandler
  | NewStreamManager ref
  | StreamManager_StartHandlingTopologyChange ref
  | StreamManager_Close ref
  | Timer_stopAll ref
  | close_timekeeperStopCh ref

text \<open>
  The struct \<^verbatim>\<open>IndexManager\<close>: a pointer field is \<open>None\<close> when nil. \<^verbatim>\<open>timestampCh\<close> maps a
  stream to the reference of its channel. The mutex is left out: the functions below run
  one at a time, each from its \<^verbatim>\<open>Lock\<close> to its \<^verbatim>\<open>Unlock\<close>.
\<close>
record IndexManager =
  repo :: "ref option"
  coordinator :: "ref option"
  reqHandler :: "ref option"
  eventMgr :: "ref option"
  streamMgr :: "ref option"
  admin :: "ref option"
  timer :: "ref option"
  timestampCh :: "StreamId \<rightharpoonup> ref"
  timekeeperStopCh :: "ref option"
  timestampPersistInterval :: uint64
  isClosed :: bool

text \<open>
  The manager together with what lies outside the struct: the store of the timestamp
  channels (\<open>'ts\<close> is \<^verbatim>\<open>*common.TsVbuuid\<close>), the next free reference, and the calls made
  so far.
\<close>
record 'ts world = IndexManager +
  tsChans :: "ref \<rightharpoonup> 'ts chan"
  nextRef :: ref
  calls :: "call list"

text \<open>
  \<^verbatim>\<open>stopMasterServiceNoLock\<close>. The stop channel is closed through the only reference to
  it, which is cleared in the same step.
\<close>
definition stopMasterServiceNoLock :: "'ts world \<Rightarrow> 'ts world" where
  "stopMasterServiceNoLock m =
     (let m1 = (case streamMgr m of
                  Some s \<Rightarrow> m\<lparr>streamMgr := None, calls := calls m @ [StreamManager_Close s]\<rparr>
                | None \<Rightarrow> m)
      in (case timer m1 of
            Some t \<Rightarrow>
              (let m2 = m1\<lparr>timer := None, calls := calls m1 @ [Timer_stopAll t]\<rparr>
               in (case timekeeperStopCh m2 of
                     Some c \<Rightarrow> m2\<lparr>timekeeperStopCh := None,
                                  calls := calls m2 @ [close_timekeeperStopCh c]\<rparr>
                   | None \<Rightarrow> m2))
          | None \<Rightarrow> m1))"

definition stopMasterService :: "'ts world \<Rightarrow> 'ts world" where
  "stopMasterService m = stopMasterServiceNoLock m"

text \<open>\<^verbatim>\<open>Close\<close>.\<close>
definition Close :: "'ts world \<Rightarrow> 'ts world" where
  "Close m =
     (if isClosed m then m
      else
        (let m1 = stopMasterServiceNoLock m;
             m2 = (case repo m1 of
                     Some r \<Rightarrow> m1\<lparr>calls := calls m1 @ [MetadataRepo_Close r]\<rparr> | None \<Rightarrow> m1);
             m3 = (case coordinator m2 of
                     Some c \<Rightarrow> m2\<lparr>calls := calls m2 @ [Coordinator_Terminate c]\<rparr> | None \<Rightarrow> m2);
             m4 = (case eventMgr m3 of
                     Some e \<Rightarrow> m3\<lparr>calls := calls m3 @ [eventManager_close e]\<rparr> | None \<Rightarrow> m3);
             m5 = (case reqHandler m4 of
                     Some h \<Rightarrow> m4\<lparr>calls := calls m4 @ [requestHandler_close h]\<rparr> | None \<Rightarrow> m4)
         in m5\<lparr>isClosed := True\<rparr>))"

definition IsClose :: "'ts world \<Rightarrow> bool" where
  "IsClose m = isClosed m"

text \<open>
  \<^verbatim>\<open>NewIndexManagerInternal\<close>. The three arguments after \<open>adm\<close> are the errors of
  \<^verbatim>\<open>NewMetadataRepo\<close>, \<^verbatim>\<open>NewRequestHandler\<close> and \<^verbatim>\<open>newEventManager\<close>; a constructor that
  fails returns a nil pointer. With an error the manager is not handed to the caller
  (the Go result is nil), the world still shows what was done to it.
\<close>
definition NewIndexManagerInternal ::
  "ref option \<Rightarrow> error option \<Rightarrow> error option \<Rightarrow> error option \<Rightarrow> 'ts world \<times> error option" where
  "NewIndexManagerInternal adm repo_err handler_err events_err =
     (let m0 = \<lparr>repo = None, coordinator = None, reqHandler = None, eventMgr = None,
                streamMgr = None, admin = adm, timer = None, timestampCh = Map.empty,
                timekeeperStopCh = None, timestampPersistInterval = 0, isClosed = False,
                tsChans = Map.empty, nextRef = 0, calls = []\<rparr>
      in (case repo_err of
            Some err \<Rightarrow> (m0, Some err)
          | None \<Rightarrow>
         (let m1 = m0\<lparr>repo := Some (nextRef m0), nextRef := Suc (nextRef m0),
                      calls := calls m0 @ [NewMetadataRepo (nextRef m0)]\<rparr>
          in (case handler_err of
                Some err \<Rightarrow> (Close m1, Some err)
              | None \<Rightarrow>
         (let m2 = m1\<lparr>reqHandler := Some (nextRef m1), nextRef := Suc (nextRef m1),
                      calls := calls m1 @ [NewRequestHandler (nextRef m1)]\<rparr>
          in (case events_err of
                Some err \<Rightarrow> (Close m2, Some err)
              | None \<Rightarrow>
         (let m3 = m2\<lparr>eventMgr := Some (nextRef m2), nextRef := Suc (nextRef m2),
                      calls := calls m2 @ [newEventManager (nextRef m2)]\<rparr>;
              m4 = m3\<lparr>coordinator := Some (nextRef m3), nextRef := Suc (nextRef m3),
                      calls := calls m3 @ [NewCoordinator (nextRef m3),
                                           go_Coordinator_Run (nextRef m3)]\<rparr>
          in (m4, None))))))))"

text \<open>
  \<^verbatim>\<open>GetStabilityTimestampChannel\<close>; \<open>ch_size\<close> is the constant \<^verbatim>\<open>TIMESTAMP_NOTIFY_CH_SIZE\<close>.
  \<^verbatim>\<open>make\<close> returns a channel at the next free reference.
\<close>
definition GetStabilityTimestampChannel :: "nat \<Rightarrow> StreamId \<Rightarrow> 'ts world \<Rightarrow> ref \<times> 'ts world" where
  "GetStabilityTimestampChannel ch_size streamId m =
     (case timestampCh m streamId of
        Some ch \<Rightarrow> (ch, m)
      | None \<Rightarrow>
          (let ch = nextRef m
           in (ch, m\<lparr>timestampCh := (timestampCh m)(streamId \<mapsto> ch),
                     tsChans := (tsChans m)(ch \<mapsto> \<lparr>capacity = ch_size, buffer = [], closed = False\<rparr>),
                     nextRef := Suc ch\<rparr>)))"

text \<open>What stops a Go function from returning: it waits for ever, or it panics.\<close>
datatype fault = Blocks | Panics

text \<open>
  \<^verbatim>\<open>ch <- v\<close> with no receiver waiting: a send on a closed channel panics, a send on a
  channel with room appends, and any other send waits.
\<close>
definition chan_send :: "'a chan \<Rightarrow> 'a \<Rightarrow> fault + 'a chan" where
  "chan_send c v =
     (if closed c then Inl Panics
      else if length (buffer c) < capacity c then Inr (c\<lparr>buffer := buffer c @ [v]\<rparr>)
      else Inl Blocks)"

text \<open>
  \<^verbatim>\<open>notifyNewTimestamp\<close>. \<open>toStreamId\<close> is the conversion \<^verbatim>\<open>common.StreamId(...)\<close>,
  \<open>unmarshallTimestamp\<close> the package's helper and \<open>ch_size\<close> the constant
  \<^verbatim>\<open>TIMESTAMP_NOTIFY_CH_SIZE\<close>. A reference with no channel behind it is a nil channel:
  its length is 0 and a send on it waits for ever.
\<close>
definition notifyNewTimestamp ::
  "(nat \<Rightarrow> StreamId) \<Rightarrow> (bytes \<Rightarrow> error + 'ts) \<Rightarrow> nat \<Rightarrow> timestampSerializable \<Rightarrow> 'ts world
     \<Rightarrow> fault + 'ts world" where
  "notifyNewTimestamp toStreamId unmarshallTimestamp ch_size wrapper m =
     (let streamId = toStreamId (StreamId wrapper)
      in (case unmarshallTimestamp (Timestamp wrapper) of
            Inl err \<Rightarrow> Inr m
          | Inr timestamp \<Rightarrow>
              (case timestampCh m streamId of
                 None \<Rightarrow> Inr m
               | Some ch \<Rightarrow>
                   (case tsChans m ch of
                      None \<Rightarrow> (if 0 < ch_size then Inl Blocks else Inr m)
                    | Some c \<Rightarrow>
                        (if length (buffer c) < ch_size then
                           (case chan_send c timestamp of
                              Inl f \<Rightarrow> Inl f
                            | Inr c' \<Rightarrow> Inr (m\<lparr>tsChans := (tsChans m)(ch \<mapsto> c')\<rparr>))
                         else Inr m)))))"

text \<open>
  \<^verbatim>\<open>startMasterService\<close>. \<open>persist_interval\<close> is the constant
  \<^verbatim>\<open>TIMESTAMP_PERSIST_INTERVAL\<close> and \<open>manager_err\<close> the error of \<^verbatim>\<open>NewStreamManager\<close>, which
  returns a nil pointer when it fails.
\<close>
definition startMasterService :: "uint64 \<Rightarrow> error option \<Rightarrow> 'ts world \<Rightarrow> 'ts world \<times> error option" where
  "startMasterService persist_interval manager_err m =
     (let m1 = m\<lparr>timestampPersistInterval := persist_interval\<rparr>;
          m2 = m1\<lparr>timer := Some (nextRef m1), nextRef := Suc (nextRef m1),
                  calls := calls m1 @ [newTimer (nextRef m1)]\<rparr>;
          m3 = m2\<lparr>timekeeperStopCh := Some (nextRef m2), nextRef := Suc (nextRef m2),
                  calls := calls m2 @ [make_timekeeperStopCh (nextRef m2)]\<rparr>;
          m4 = m3\<lparr>calls := calls m3 @ [go_runTimestampKeeper, NewStreamMonitor]\<rparr>;
          m5 = (case admin m4 of
                  None \<Rightarrow> m4\<lparr>calls := calls m4 @ [NewProjectorAdmin]\<rparr>
                | Some a \<Rightarrow> m4\<lparr>calls := calls m4 @ [StreamAdmin_Initialize a]\<rparr>);
          m6 = m5\<lparr>calls := calls m5 @ [NewMgrMutHandler]\<rparr>
      in (case manager_err of
            Some err \<Rightarrow> (m6\<lparr>streamMgr := None\<rparr>, Some err)
          | None \<Rightarrow>
              (m6\<lparr>streamMgr := Some (nextRef m6), nextRef := Suc (nextRef m6),
                  calls := calls m6 @ [NewStreamManager (nextRef m6),
                                       StreamManager_StartHandlingTopologyChange (nextRef m6)]\<rparr>,
               None)))"

text \<open>\<^verbatim>\<open>SetTimestampPersistenceInterval\<close>.\<close>
definition SetTimestampPersistenceInterval :: "uint64 \<Rightarrow> 'ts world \<Rightarrow> 'ts world" where
  "SetTimestampPersistenceInterval elapsed m = m\<lparr>timestampPersistInterval := elapsed\<rparr>"

text \<open>
  What the functions above keep true of the timer and its stop channel: they are set
  together and cleared together.
\<close>
definition timer_inv :: "'ts world \<Rightarrow> bool" where
  "timer_inv m = (case timer m of None \<Rightarrow> timekeeperStopCh m = None | Some t \<Rightarrow> True)"

text \<open>
  What the functions above keep true of the timestamp channels: the references in use lie
  below the next free one, and every registered channel is an open channel of capacity
  \<open>ch_size\<close> holding at most \<open>ch_size\<close> elements.
\<close>
definition chans_inv :: "nat \<Rightarrow> 'ts world \<Rightarrow> bool" where
  "chans_inv ch_size m =
     ((\<forall>r. r \<in> dom (tsChans m) \<longrightarrow> r < nextRef m) \<and>
      (\<forall>sid r. timestampCh m sid = Some r \<longrightarrow>
         (\<exists>c. tsChans m r = Some c \<and> capacity c = ch_size \<and> \<not> closed c
               \<and> length (buffer c) \<le> ch_size)))"

subsection \<open>The keeper beside the manager\<close>

text \<open>
  Where the goroutine of the keeper stands: about to enter the \<^verbatim>\<open>select\<close>, waiting in it
  with the stop channel it read from \<^verbatim>\<open>m.timekeeperStopCh\<close> on entering (Go evaluates the
  channel operands of a \<^verbatim>\<open>select\<close> once, on entering it), or returned.
\<close>
datatype phase = Entering | Waiting "ref option" | Finished

text \<open>
  The manager and the goroutine started by \<^verbatim>\<open>go m.runTimestampKeeper()\<close>, which reads
  the manager's field \<^verbatim>\<open>timekeeperStopCh\<close> while other goroutines call the manager.
\<close>
record ('c, 'tl) system =
  manager :: "'c world"
  keeper_vars :: "'tl keeper"
  keeper_at :: phase

text \<open>
  What happens next: the keeper enters its \<^verbatim>\<open>select\<close>, the \<^verbatim>\<open>select\<close> takes one of its
  cases, or another goroutine calls \<^verbatim>\<open>stopMasterService\<close>.
\<close>
datatype 'ts action =
    EnterSelect
  | TakeStop
  | TakeInbound 'ts iteration
  | TakeInboundClosed
  | CallStopMasterService

text \<open>
  \<^verbatim>\<open>case <-m.timekeeperStopCh\<close> for the channel read on entering: a receive on a nil
  channel is never ready; manager.go never sends on the stop channel, so a receive on it
  is ready exactly when \<^verbatim>\<open>stopMasterServiceNoLock\<close> has closed it.
\<close>
definition stop_case_ready :: "'c world \<Rightarrow> ref option \<Rightarrow> bool" where
  "stop_case_ready m operand =
     (case operand of
        None \<Rightarrow> False
      | Some c \<Rightarrow> close_timekeeperStopCh c \<in> set (calls m))"

text \<open>
  One step. A step that cannot happen where the keeper stands leaves everything as it
  is. The body of the loop runs as one step; a stop that arrives while the body runs is
  a \<open>CallStopMasterService\<close> between \<open>TakeInbound\<close> and the next \<open>EnterSelect\<close>.
\<close>
fun system_step ::
  "('tl \<Rightarrow> 'ts \<Rightarrow> 'tl) \<Rightarrow> ('ts \<Rightarrow> error + bytes) \<Rightarrow> ('c, 'tl) system \<Rightarrow> 'ts action
     \<Rightarrow> ('c, 'tl) system" where
  "system_step addTs marshal s EnterSelect =
     (case keeper_at s of
        Entering \<Rightarrow> s\<lparr>keeper_at := Waiting (timekeeperStopCh (manager s))\<rparr>
      | Waiting operand \<Rightarrow> s
      | Finished \<Rightarrow> s)"
| "system_step addTs marshal s TakeStop =
     (case keeper_at s of
        Entering \<Rightarrow> s
      | Waiting operand \<Rightarrow>
          (if stop_case_ready (manager s) operand then s\<lparr>keeper_at := Finished\<rparr> else s)
      | Finished \<Rightarrow> s)"
| "system_step addTs marshal s (TakeInbound timestamp it) =
     (case keeper_at s of
        Entering \<Rightarrow> s
      | Waiting operand \<Rightarrow>
          s\<lparr>keeper_vars := keeper_body addTs marshal (keeper_vars s) timestamp it,
            keeper_at := Entering\<rparr>
      | Finished \<Rightarrow> s)"
| "system_step addTs marshal s TakeInboundClosed =
     (case keeper_at s of
        Entering \<Rightarrow> s
      | Waiting operand \<Rightarrow> s\<lparr>keeper_at := Finished\<rparr>
      | Finished \<Rightarrow> s)"
| "system_step addTs marshal s CallStopMasterService =
     s\<lparr>manager := stopMasterService (manager s)\<rparr>"

text \<open>
  A run over a list of steps.
\<close>
definition system_run ::
  "('tl \<Rightarrow> 'ts \<Rightarrow> 'tl) \<Rightarrow> ('ts \<Rightarrow> error + bytes) \<Rightarrow> ('c, 'tl) system \<Rightarrow> 'ts action list
     \<Rightarrow> ('c, 'tl) system" where
  "system_run addTs marshal s acts = foldl (system_step addTs marshal) s acts"

text \<open>
  The system when the goroutine of the keeper reaches its loop: \<open>now\<close>, \<open>got\<close> and
  \<open>created\<close> are as in \<open>keeper_start\<close>.
\<close>
definition keeper_spawned :: "'c world \<Rightarrow> uint64 \<Rightarrow> error + 'tl \<Rightarrow> 'tl \<Rightarrow> ('c, 'tl) system" where
  "keeper_spawned m now got created =
     \<lparr>manager = m, keeper_vars = keeper_start now got created, keeper_at = Entering\<rparr>"


text \<open>
  The case the \<^verbatim>\<open>select\<close> takes in a step, as an event of \<open>keeper_loop\<close>.
\<close>
definition select_takes :: "('c, 'tl) system \<Rightarrow> 'ts action \<Rightarrow> 'ts event list" where
  "select_takes s act =
     (case keeper_at s of
        Entering \<Rightarrow> []
      | Waiting operand \<Rightarrow>
          (case act of
             EnterSelect \<Rightarrow> []
           | TakeStop \<Rightarrow> (if stop_case_ready (manager s) operand then [Stop] else [])
           | TakeInbound timestamp it \<Rightarrow> [Inbound timestamp it]
           | TakeInboundClosed \<Rightarrow> [InboundClosed]
           | CallStopMasterService \<Rightarrow> [])
      | Finished \<Rightarrow> [])"

text \<open>
  The events the \<^verbatim>\<open>select\<close> takes over a run.
\<close>
fun selected ::
  "('tl \<Rightarrow> 'ts \<Rightarrow> 'tl) \<Rightarrow> ('ts \<Rightarrow> error + bytes) \<Rightarrow> ('c, 'tl) system \<Rightarrow> 'ts action list
     \<Rightarrow> 'ts event list" where
  "selected addTs marshal s [] = []"
| "selected addTs marshal s (act # acts) =
     select_takes s act @ selected addTs marshal (system_step addTs marshal s act) acts"

subsection \<open>Stability timestamps\<close>







section \<open>Theorems\<close>

subsection \<open>Index DDL\<close>

text \<open>
  C4. \<^verbatim>\<open>HandleCreateIndexDDL\<close> and \<^verbatim>\<open>HandleDeleteIndexDDL\<close> return nil exactly when one
  request was submitted to the coordinator and \<^verbatim>\<open>NewRequest\<close> answered true. When
  marshalling the definition fails, no request is submitted and the error returned is the
  marshalling error; when \<^verbatim>\<open>NewRequest\<close> answers false the error is the one built by
  \<^verbatim>\<open>NewError\<close>. A nil return is never a false positive.
\<close>
theorem ddl_nil_iff_request_acknowledged:
  "(snd (HandleCreateIndexDDL mar nm coord now defn) = None
      \<longleftrightarrow> (\<exists>rq. fst (HandleCreateIndexDDL mar nm coord now defn) = [rq] \<and> coord rq
               \<and> opcode rq = OPCODE_ADD_IDX_DEFN \<and> mar defn = Inr (content rq)))
   \<and> (mar defn = Inl e \<longrightarrow> HandleCreateIndexDDL mar nm coord now defn = ([], Some e))
   \<and> (snd (HandleCreateIndexDDL mar nm coord now defn) \<noteq> None
        \<longrightarrow> (\<forall>rq \<in> set (fst (HandleCreateIndexDDL mar nm coord now defn)). \<not> coord rq))
   \<and> (snd (HandleDeleteIndexDDL nm coord now bucket name) = None
      \<longleftrightarrow> (\<exists>rq. fst (HandleDeleteIndexDDL nm coord now bucket name) = [rq] \<and> coord rq
               \<and> opcode rq = OPCODE_DEL_IDX_DEFN))
   \<and> (snd (HandleDeleteIndexDDL nm coord now bucket name) \<noteq> None
        \<longrightarrow> (\<forall>rq \<in> set (fst (HandleDeleteIndexDDL nm coord now bucket name)). \<not> coord rq))"
  by (auto simp: HandleCreateIndexDDL_def HandleDeleteIndexDDL_def Let_def split: sum.splits)

theorem ddl_nil_witness:
  "HandleCreateIndexDDL (\<lambda>d. Inr [1]) (\<lambda>b n. b @ ''/'' @ n) (\<lambda>rq. True) 7
      \<lparr>Bucket = ''b'', Name = ''idx1''\<rparr>
    = ([\<lparr>req_id = 7, opcode = OPCODE_ADD_IDX_DEFN, req_key = ''b/idx1'', content = [1]\<rparr>], None)
   \<and> HandleCreateIndexDDL (\<lambda>d. Inl (CollaboratorError ''bad'')) (\<lambda>b n. b @ ''/'' @ n)
        (\<lambda>rq. True) 7 \<lparr>Bucket = ''b'', Name = ''idx1''\<rparr>
    = ([], Some (CollaboratorError ''bad''))
   \<and> snd (HandleCreateIndexDDL (\<lambda>d. Inr [1]) (\<lambda>b n. b @ ''/'' @ n) (\<lambda>rq. False) 7
        \<lparr>Bucket = ''b'', Name = ''idx1''\<rparr>) \<noteq> None
   \<and> snd (HandleDeleteIndexDDL (\<lambda>b n. b @ ''/'' @ n) (\<lambda>rq. False) 7 ''b'' ''idx1'') \<noteq> None
   \<and> snd (HandleDeleteIndexDDL (\<lambda>b n. b @ ''/'' @ n) (\<lambda>rq. True) 7 ''b'' ''idx1'') = None"
proof -
  have failed: "(\<lambda>d::IndexDefn. Inl (CollaboratorError ''bad'') :: error + bytes)
      \<lparr>Bucket = ''b'', Name = ''idx1''\<rparr> = Inl (CollaboratorError ''bad'')"
    by simp
  show ?thesis
    using ddl_nil_iff_request_acknowledged [of "\<lambda>d. Inr [1]" "\<lambda>b n. b @ ''/'' @ n" "\<lambda>rq. True" 7
        "\<lparr>Bucket = ''b'', Name = ''idx1''\<rparr>" "CollaboratorError ''bad''" "''b''" "''idx1''"]
      ddl_nil_iff_request_acknowledged [of "\<lambda>d. Inl (CollaboratorError ''bad'')"
        "\<lambda>b n. b @ ''/'' @ n" "\<lambda>rq. True" 7
        "\<lparr>Bucket = ''b'', Name = ''idx1''\<rparr>" "CollaboratorError ''bad''" "''b''" "''idx1''"] failed
      ddl_nil_iff_request_acknowledged [of "\<lambda>d. Inr [1]" "\<lambda>b n. b @ ''/'' @ n" "\<lambda>rq. False" 7
        "\<lparr>Bucket = ''b'', Name = ''idx1''\<rparr>" "CollaboratorError ''bad''" "''b''" "''idx1''"]
    by (simp add: HandleCreateIndexDDL_def HandleDeleteIndexDDL_def)
qed

subsection \<open>The timestamp keeper\<close>


lemma keeper_loop_stop_append:
  "keeper_loop a mar k (es @ Stop # rest) = (Returned, snd (keeper_loop a mar k es))"
proof (induction es arbitrary: k)
  case Nil
  then show ?case by simp
next
  case (Cons e es)
  then show ?case by (cases e) auto
qed

lemma saves_append: "saves (xs @ ys) = saves xs @ saves ys"
  by (induction xs rule: saves.induct) simp_all

lemma submitted_append: "submitted (xs @ ys) = submitted xs @ submitted ys"
  by (induction xs rule: submitted.induct) simp_all

lemma keeper_body_saves:
  "saves (made (keeper_body a mar k ts it)) =
     saves (made k) @
       (if persistTimestamp k \<or> persistInterval it < now_check it - lastPersistTime k
        then [(a (timestamps k) ts, set_err it)] else [])"
  by (auto simp: keeper_body_def Let_def saves_append split: option.splits sum.splits)

lemma keeper_body_flag:
  "persistTimestamp (keeper_body a mar k ts it) =
     ((persistTimestamp k \<or> persistInterval it < now_check it - lastPersistTime k) \<and> set_err it \<noteq> None)"
  by (auto simp: keeper_body_def Let_def split: option.splits sum.splits)

lemma keeper_body_last:
  "lastPersistTime (keeper_body a mar k ts it) =
     (if (persistTimestamp k \<or> persistInterval it < now_check it - lastPersistTime k) \<and> set_err it = None
      then now_saved it else lastPersistTime k)"
  by (auto simp: keeper_body_def Let_def split: option.splits sum.splits)


lemma keeper_body_submitted:
  "submitted (made (keeper_body a mar k ts it)) =
     submitted (made k) @
       (case mar ts of Inl err \<Rightarrow> []
        | Inr data \<Rightarrow> [\<lparr>req_id = now_id it, opcode = OPCODE_NOTIFY_TIMESTAMP,
                      req_key = ''Stability Timestamp'', content = data\<rparr>])"
  by (auto simp: keeper_body_def Let_def submitted_append split: option.splits sum.splits)

text \<open>
  C2, as the code has it. The keeper has one flag for all streams, set when the loop
  starts. It saves the collection on the first timestamp the loop receives, whatever
  the stream of that timestamp; on a later timestamp it saves exactly when the previous
  save failed (the flag is still set) or the unsigned 64-bit difference between the clock
  and \<^verbatim>\<open>lastPersistTime\<close> is greater than \<^verbatim>\<open>timestampPersistInterval\<close>, where
  \<^verbatim>\<open>lastPersistTime\<close> is the time the loop started until a save succeeds, and the time of
  the last successful save after that.
\<close>
theorem persist_policy:
  "saves (made (keeper_body a mar (keeper_start now got created) ts it))
     = [(a (timestamps (keeper_start now got created)) ts, set_err it)]
   \<and> lastPersistTime (keeper_start now got created) = now
   \<and> saves (made (keeper_body a mar k ts it))
       = saves (made k) @
         (if persistTimestamp k \<or> persistInterval it < now_check it - lastPersistTime k
          then [(a (timestamps k) ts, set_err it)] else [])
   \<and> persistTimestamp (keeper_body a mar k ts it)
       = ((persistTimestamp k \<or> persistInterval it < now_check it - lastPersistTime k)
          \<and> set_err it \<noteq> None)
   \<and> lastPersistTime (keeper_body a mar k ts it)
       = (if (persistTimestamp k \<or> persistInterval it < now_check it - lastPersistTime k)
             \<and> set_err it = None
          then now_saved it else lastPersistTime k)"
proof -
  have "saves (made (keeper_body a mar (keeper_start now got created) ts it))
     = [(a (timestamps (keeper_start now got created)) ts, set_err it)]"
    by (simp add: keeper_body_saves) (simp add: keeper_start_def)
  moreover have "lastPersistTime (keeper_start now got created) = now"
    by (simp add: keeper_start_def)
  ultimately show ?thesis
    using keeper_body_saves [of a mar k ts it] keeper_body_flag [of a mar k ts it]
      keeper_body_last [of a mar k ts it]
    by blast
qed

theorem persist_policy_witness:
  "saves (made (keeper_body (\<lambda>l t. l @ [t]) (\<lambda>t. Inr (Timestamp t))
      \<lparr>timestamps = [], persistTimestamp = False, lastPersistTime = 100, made = []\<rparr>
      \<lparr>StreamId = 1, Timestamp = [1]\<rparr>
      \<lparr>now_check = 1101, persistInterval = 1000, set_err = None, now_saved = 1102, now_id = 1103\<rparr>))
    = [([\<lparr>StreamId = 1, Timestamp = [1]\<rparr>], None)]
   \<and> saves (made (keeper_body (\<lambda>l t. l @ [t]) (\<lambda>t. Inr (Timestamp t))
      \<lparr>timestamps = [], persistTimestamp = False, lastPersistTime = 100, made = []\<rparr>
      \<lparr>StreamId = 1, Timestamp = [1]\<rparr>
      \<lparr>now_check = 1100, persistInterval = 1000, set_err = None, now_saved = 1102, now_id = 1103\<rparr>))
    = []"
  using persist_policy [of "\<lambda>l t. l @ [t]" "\<lambda>t. Inr (Timestamp t)" 0 "Inr []" "[]"
      "\<lparr>StreamId = 1, Timestamp = [1]\<rparr>"
      "\<lparr>now_check = 1101, persistInterval = 1000, set_err = None, now_saved = 1102, now_id = 1103\<rparr>"
      "\<lparr>timestamps = [], persistTimestamp = False, lastPersistTime = 100, made = []\<rparr>"]
    persist_policy [of "\<lambda>l t. l @ [t]" "\<lambda>t. Inr (Timestamp t)" 0 "Inr []" "[]"
      "\<lparr>StreamId = 1, Timestamp = [1]\<rparr>"
      "\<lparr>now_check = 1100, persistInterval = 1000, set_err = None, now_saved = 1102, now_id = 1103\<rparr>"
      "\<lparr>timestamps = [], persistTimestamp = False, lastPersistTime = 100, made = []\<rparr>"]
  by simp

text \<open>
  C2, as the claim states it, fails. The loop starts at time 5 with an interval of 1000.
  The save at the first timestamp fails; the second timestamp, 15 later, is saved though
  no interval has passed; the third timestamp is the first one of stream 2 and is not
  saved.
\<close>
theorem first_timestamp_of_stream_not_persisted:
  "saves (made (snd (runTimestampKeeper (\<lambda>l t. l @ [t]) (\<lambda>t. Inr (Timestamp t)) 5
      (Inl (CollaboratorError ''not found'')) []
      [Inbound \<lparr>StreamId = 1, Timestamp = [1]\<rparr>
         \<lparr>now_check = 10, persistInterval = 1000, set_err = Some (CollaboratorError ''down''),
          now_saved = 11, now_id = 12\<rparr>,
       Inbound \<lparr>StreamId = 1, Timestamp = [2]\<rparr>
         \<lparr>now_check = 20, persistInterval = 1000, set_err = None, now_saved = 21, now_id = 22\<rparr>,
       Inbound \<lparr>StreamId = 2, Timestamp = [3]\<rparr>
         \<lparr>now_check = 30, persistInterval = 1000, set_err = None, now_saved = 31, now_id = 32\<rparr>])))
   = [([\<lparr>StreamId = 1, Timestamp = [1]\<rparr>], Some (CollaboratorError ''down'')),
      ([\<lparr>StreamId = 1, Timestamp = [1]\<rparr>, \<lparr>StreamId = 1, Timestamp = [2]\<rparr>], None)]"
  by (simp add: runTimestampKeeper_def keeper_start_def keeper_body_def Let_def)

text \<open>
  C3, as the code has it. For every incoming timestamp one
  \<^verbatim>\<open>OPCODE_NOTIFY_TIMESTAMP\<close> request carrying the serialized incoming timestamp is
  submitted exactly when \<^verbatim>\<open>marshallTimestampSerializable\<close> succeeds on it, whether a save was
  tried in that pass or not, and whatever its outcome.
\<close>
theorem notify_request_iff_marshalled:
  "submitted (made (keeper_body a mar k ts it)) =
     submitted (made k) @
       (case mar ts of
          Inl err \<Rightarrow> []
        | Inr data \<Rightarrow> [\<lparr>req_id = now_id it, opcode = OPCODE_NOTIFY_TIMESTAMP,
                        req_key = ''Stability Timestamp'', content = data\<rparr>])"
  by (auto simp: keeper_body_def Let_def submitted_append split: option.splits sum.splits)

theorem notify_request_witness:
  "submitted (made (keeper_body (\<lambda>l t. l @ [t]) (\<lambda>t. Inr (Timestamp t))
      \<lparr>timestamps = [], persistTimestamp = False, lastPersistTime = 100, made = []\<rparr>
      \<lparr>StreamId = 1, Timestamp = [7]\<rparr>
      \<lparr>now_check = 101, persistInterval = 1000, set_err = None, now_saved = 102, now_id = 103\<rparr>))
   = [\<lparr>req_id = 103, opcode = OPCODE_NOTIFY_TIMESTAMP, req_key = ''Stability Timestamp'',
       content = [7]\<rparr>]
   \<and> submitted (made (keeper_body (\<lambda>l t. l @ [t]) (\<lambda>t. Inl (CollaboratorError ''bad''))
      \<lparr>timestamps = [], persistTimestamp = True, lastPersistTime = 100, made = []\<rparr>
      \<lparr>StreamId = 1, Timestamp = [7]\<rparr>
      \<lparr>now_check = 101, persistInterval = 1000, set_err = None, now_saved = 102, now_id = 103\<rparr>))
   = []"
  using notify_request_iff_marshalled [of "\<lambda>l t. l @ [t]" "\<lambda>t. Inr (Timestamp t)"
      "\<lparr>timestamps = [], persistTimestamp = False, lastPersistTime = 100, made = []\<rparr>"
      "\<lparr>StreamId = 1, Timestamp = [7]\<rparr>"
      "\<lparr>now_check = 101, persistInterval = 1000, set_err = None, now_saved = 102, now_id = 103\<rparr>"]
    notify_request_iff_marshalled [of "\<lambda>l t. l @ [t]" "\<lambda>t. Inl (CollaboratorError ''bad'')"
      "\<lparr>timestamps = [], persistTimestamp = True, lastPersistTime = 100, made = []\<rparr>"
      "\<lparr>StreamId = 1, Timestamp = [7]\<rparr>"
      "\<lparr>now_check = 101, persistInterval = 1000, set_err = None, now_saved = 102, now_id = 103\<rparr>"]
  by simp

text \<open>
  C3, as the claim states it, fails. A request is submitted in the first pass, whose save
  fails, and in the third pass, which saves nothing; each request carries the bytes of
  the incoming timestamp.
\<close>
theorem notify_request_without_persist:
  "made (snd (runTimestampKeeper (\<lambda>l t. l @ [t]) (\<lambda>t. Inr (Timestamp t)) 5
      (Inr []) []
      [Inbound \<lparr>StreamId = 1, Timestamp = [1]\<rparr>
         \<lparr>now_check = 10, persistInterval = 1000, set_err = Some (CollaboratorError ''down''),
          now_saved = 11, now_id = 12\<rparr>,
       Inbound \<lparr>StreamId = 1, Timestamp = [2]\<rparr>
         \<lparr>now_check = 20, persistInterval = 1000, set_err = None, now_saved = 21, now_id = 22\<rparr>,
       Inbound \<lparr>StreamId = 1, Timestamp = [3]\<rparr>
         \<lparr>now_check = 30, persistInterval = 1000, set_err = None, now_saved = 31, now_id = 32\<rparr>]))
   = [SetStabilityTimestamps [\<lparr>StreamId = 1, Timestamp = [1]\<rparr>] (Some (CollaboratorError ''down'')),
      Coordinator_NewRequest \<lparr>req_id = 12, opcode = OPCODE_NOTIFY_TIMESTAMP,
        req_key = ''Stability Timestamp'', content = [1]\<rparr>,
      SetStabilityTimestamps [\<lparr>StreamId = 1, Timestamp = [1]\<rparr>, \<lparr>StreamId = 1, Timestamp = [2]\<rparr>] None,
      Coordinator_NewRequest \<lparr>req_id = 22, opcode = OPCODE_NOTIFY_TIMESTAMP,
        req_key = ''Stability Timestamp'', content = [2]\<rparr>,
      Coordinator_NewRequest \<lparr>req_id = 32, opcode = OPCODE_NOTIFY_TIMESTAMP,
        req_key = ''Stability Timestamp'', content = [3]\<rparr>]"
  by (simp add: runTimestampKeeper_def keeper_start_def keeper_body_def Let_def)



subsection \<open>The manager: what every function keeps true\<close>

text \<open>
  \<^verbatim>\<open>stopMasterServiceNoLock\<close> in one step. The next lemmas show that the manager returned
  by \<^verbatim>\<open>NewIndexManagerInternal\<close> satisfies \<open>timer_inv\<close> and \<open>chans_inv\<close>, and that every
  function of the model keeps them.
\<close>
lemma stop_eq:
  "stopMasterServiceNoLock m =
     (case timer m of
        None \<Rightarrow> m\<lparr>streamMgr := None,
                  calls := calls m @ (case streamMgr m of Some s \<Rightarrow> [StreamManager_Close s] | None \<Rightarrow> [])\<rparr>
      | Some t \<Rightarrow> m\<lparr>streamMgr := None, timer := None, timekeeperStopCh := None,
                  calls := calls m @ (case streamMgr m of Some s \<Rightarrow> [StreamManager_Close s] | None \<Rightarrow> [])
                     @ Timer_stopAll t #
                       (case timekeeperStopCh m of Some c \<Rightarrow> [close_timekeeperStopCh c] | None \<Rightarrow> [])\<rparr>)"
  by (simp add: stopMasterServiceNoLock_def Let_def split: option.splits)

lemma timer_inv_stop: "timer_inv (stopMasterServiceNoLock m) = timer_inv m"
  by (simp add: stop_eq timer_inv_def split: option.splits)

lemma stop_stop: "timer_inv m \<Longrightarrow> stopMasterServiceNoLock (stopMasterServiceNoLock m) = stopMasterServiceNoLock m"
  by (simp add: stop_eq timer_inv_def split: option.splits)

lemma timer_inv_Close: "timer_inv m \<Longrightarrow> timer_inv (Close m)"
  by (simp add: Close_def Let_def stop_eq timer_inv_def split: option.splits)

lemma timer_inv_start: "timer_inv (fst (startMasterService p e m))"
  by (simp add: startMasterService_def Let_def timer_inv_def split: option.splits)

lemma timer_inv_new: "timer_inv (fst (NewIndexManagerInternal adm e1 e2 e3))"
  by (simp add: NewIndexManagerInternal_def Let_def timer_inv_def Close_def stop_eq split: option.splits)

lemma timer_inv_Get: "timer_inv (snd (GetStabilityTimestampChannel n sid m)) = timer_inv m"
  by (auto simp: GetStabilityTimestampChannel_def Let_def timer_inv_def split: option.splits)

lemma timer_inv_Set: "timer_inv (SetTimestampPersistenceInterval v m) = timer_inv m"
  by (auto simp: SetTimestampPersistenceInterval_def timer_inv_def split: option.splits)

lemma timer_inv_notify: "notifyNewTimestamp cv un n w m = Inr m' \<Longrightarrow> timer_inv m' = timer_inv m"
  by (auto simp: notifyNewTimestamp_def Let_def timer_inv_def split: option.splits sum.splits if_splits)

lemma chans_inv_new: "chans_inv n (fst (NewIndexManagerInternal adm e1 e2 e3))"
  by (simp add: NewIndexManagerInternal_def Let_def chans_inv_def Close_def stop_eq split: option.splits)

lemma chans_inv_stop: "chans_inv n (stopMasterServiceNoLock m) = chans_inv n m"
  by (simp add: stop_eq chans_inv_def split: option.splits)

lemma chans_inv_Close: "chans_inv n (Close m) = chans_inv n m"
  by (simp add: Close_def Let_def stop_eq chans_inv_def split: option.splits)

lemma chans_inv_Set: "chans_inv n (SetTimestampPersistenceInterval v m) = chans_inv n m"
  by (simp add: SetTimestampPersistenceInterval_def chans_inv_def)

lemma chans_inv_start: "chans_inv n m \<Longrightarrow> chans_inv n (fst (startMasterService p e m))"
  by (auto simp: startMasterService_def Let_def chans_inv_def less_Suc_eq split: option.splits)

lemma chans_inv_Get: "chans_inv n m \<Longrightarrow> chans_inv n (snd (GetStabilityTimestampChannel n sid m))"
  by (auto simp: GetStabilityTimestampChannel_def Let_def chans_inv_def less_Suc_eq split: option.splits)

lemma notify_eq:
  assumes "chans_inv n m"
  shows "notifyNewTimestamp cv un n w m =
     Inr (case un (Timestamp w) of
            Inl err \<Rightarrow> m
          | Inr ts \<Rightarrow>
              (case timestampCh m (cv (StreamId w)) of
                 None \<Rightarrow> m
               | Some ch \<Rightarrow>
                   (case tsChans m ch of
                      None \<Rightarrow> m
                    | Some c \<Rightarrow>
                        if length (buffer c) < n
                        then m\<lparr>tsChans := (tsChans m)(ch \<mapsto> c\<lparr>buffer := buffer c @ [ts]\<rparr>)\<rparr>
                        else m)))"
proof (cases "un (Timestamp w)")
  case (Inl e)
  then show ?thesis by (simp add: notifyNewTimestamp_def)
next
  case (Inr ts)
  show ?thesis
  proof (cases "timestampCh m (cv (StreamId w))")
    case None
    with Inr show ?thesis by (simp add: notifyNewTimestamp_def)
  next
    case (Some ch)
    with assms obtain c where c: "tsChans m ch = Some c" "capacity c = n" "\<not> closed c"
      unfolding chans_inv_def by blast
    with Inr Some show ?thesis
      by (simp add: notifyNewTimestamp_def chan_send_def)
  qed
qed

lemma chans_inv_notify:
  assumes "chans_inv n m" and "notifyNewTimestamp cv un n w m = Inr m'"
  shows "chans_inv n m'"
proof -
  from assms have m': "m' = (case un (Timestamp w) of
            Inl err \<Rightarrow> m
          | Inr ts \<Rightarrow>
              (case timestampCh m (cv (StreamId w)) of
                 None \<Rightarrow> m
               | Some ch \<Rightarrow>
                   (case tsChans m ch of
                      None \<Rightarrow> m
                    | Some c \<Rightarrow>
                        if length (buffer c) < n
                        then m\<lparr>tsChans := (tsChans m)(ch \<mapsto> c\<lparr>buffer := buffer c @ [ts]\<rparr>)\<rparr>
                        else m)))"
    by (simp add: notify_eq)
  show ?thesis
    using assms(1) unfolding m' chans_inv_def
    by (auto split: sum.splits option.splits; fastforce)
qed

lemma Close_open:
  "\<not> isClosed m \<Longrightarrow>
     Close m = (stopMasterServiceNoLock m)
          \<lparr>isClosed := True,
           calls := calls (stopMasterServiceNoLock m)
             @ (case repo m of Some r \<Rightarrow> [MetadataRepo_Close r] | None \<Rightarrow> [])
             @ (case coordinator m of Some c \<Rightarrow> [Coordinator_Terminate c] | None \<Rightarrow> [])
             @ (case eventMgr m of Some e \<Rightarrow> [eventManager_close e] | None \<Rightarrow> [])
             @ (case reqHandler m of Some h \<Rightarrow> [requestHandler_close h] | None \<Rightarrow> [])\<rparr>"
  by (cases "repo m"; cases "coordinator m"; cases "eventMgr m"; cases "reqHandler m";
      cases "timer m"; simp add: Close_def Let_def stop_eq)

lemma start_interval: "timestampPersistInterval (fst (startMasterService p e m)) = p"
  by (cases e; cases "admin m"; simp add: startMasterService_def Let_def)

lemma start_after_Set:
  "fst (startMasterService p e (SetTimestampPersistenceInterval v m)) = fst (startMasterService p e m)"
  by (cases e; cases "admin m"; simp add: startMasterService_def SetTimestampPersistenceInterval_def Let_def)

lemma stop_interval: "timestampPersistInterval (stopMasterServiceNoLock m) = timestampPersistInterval m"
  by (cases "timer m"; simp add: stop_eq)

subsection \<open>Stopping and closing\<close>

text \<open>
  \<^verbatim>\<open>stopMasterService\<close> closes the stream manager, stops the timer and closes the stop
  channel of the keeper (each one when it is there), and leaves \<^verbatim>\<open>streamMgr\<close>, \<^verbatim>\<open>timer\<close>
  and \<^verbatim>\<open>timekeeperStopCh\<close> nil; nothing else of the manager changes, and a second stop
  does nothing.
\<close>
lemma stopMasterService_clears:
  assumes "timer_inv m"
  shows "stopMasterService m =
      m\<lparr>streamMgr := None, timer := None, timekeeperStopCh := None,
        calls := calls m
          @ (case streamMgr m of Some s \<Rightarrow> [StreamManager_Close s] | None \<Rightarrow> [])
          @ (case timer m of Some t \<Rightarrow> [Timer_stopAll t] | None \<Rightarrow> [])
          @ (case timekeeperStopCh m of Some c \<Rightarrow> [close_timekeeperStopCh c] | None \<Rightarrow> [])\<rparr>
    \<and> stopMasterService (stopMasterService m) = stopMasterService m"
proof
  show "stopMasterService m =
      m\<lparr>streamMgr := None, timer := None, timekeeperStopCh := None,
        calls := calls m
          @ (case streamMgr m of Some s \<Rightarrow> [StreamManager_Close s] | None \<Rightarrow> [])
          @ (case timer m of Some t \<Rightarrow> [Timer_stopAll t] | None \<Rightarrow> [])
          @ (case timekeeperStopCh m of Some c \<Rightarrow> [close_timekeeperStopCh c] | None \<Rightarrow> [])\<rparr>"
  proof (cases "timer m")
    case None
    with assms have "timekeeperStopCh m = None" by (simp add: timer_inv_def)
    with None show ?thesis by (simp add: stopMasterService_def stop_eq)
  next
    case (Some t)
    then show ?thesis by (simp add: stopMasterService_def stop_eq)
  qed
  show "stopMasterService (stopMasterService m) = stopMasterService m"
    using assms by (simp add: stopMasterService_def stop_stop)
qed

lemma system_run_Cons:
  "system_run a mar s (act # acts) = system_run a mar (system_step a mar s act) acts"
  by (simp add: system_run_def)

lemma finished_stays: "keeper_at s = Finished \<Longrightarrow> keeper_at (system_step a mar s act) = Finished"
  by (cases act) simp_all

lemma finished_vars: "keeper_at s = Finished \<Longrightarrow> keeper_vars (system_step a mar s act) = keeper_vars s"
  by (cases act) simp_all

lemma finished_run:
  "keeper_at s = Finished \<Longrightarrow>
     keeper_at (system_run a mar s acts) = Finished
     \<and> keeper_vars (system_run a mar s acts) = keeper_vars s"
proof (induction acts arbitrary: s)
  case Nil
  then show ?case by (simp add: system_run_def)
next
  case (Cons act acts)
  from Cons.prems have "keeper_at (system_step a mar s act) = Finished"
    and "keeper_vars (system_step a mar s act) = keeper_vars s"
    by (simp_all add: finished_stays finished_vars)
  with Cons.IH [of "system_step a mar s act"] show ?case
    by (simp add: system_run_Cons)
qed

text \<open>
  The keeper inside the system is \<open>keeper_loop\<close> on the events its \<^verbatim>\<open>select\<close> took:
  the same variables, and returned exactly when the system says so.
\<close>
lemma keeper_loop_of_system:
  assumes "keeper_at s \<noteq> Finished"
  shows "keeper_loop a mar (keeper_vars s) (selected a mar s acts)
       = (if keeper_at (system_run a mar s acts) = Finished then Returned else Running,
          keeper_vars (system_run a mar s acts))"
  using assms
proof (induction acts arbitrary: s)
  case Nil
  then show ?case by (simp add: system_run_def)
next
  case (Cons act acts)
  let ?s' = "system_step a mar s act"
  show ?case
  proof (cases "keeper_at ?s' = Finished")
    case True
    with Cons.prems have took: "select_takes s act = [Stop] \<or> select_takes s act = [InboundClosed]"
      and same: "keeper_vars ?s' = keeper_vars s"
      by (cases act; cases "keeper_at s"; simp add: select_takes_def split: if_splits)+
    from True have "keeper_at (system_run a mar ?s' acts) = Finished"
      and "keeper_vars (system_run a mar ?s' acts) = keeper_vars ?s'"
      by (simp_all add: finished_run)
    with took same show ?thesis
      by (auto simp: system_run_Cons)
  next
    case False
    from Cons.IH [OF False]
    have IH: "keeper_loop a mar (keeper_vars ?s') (selected a mar ?s' acts)
       = (if keeper_at (system_run a mar ?s' acts) = Finished then Returned else Running,
          keeper_vars (system_run a mar ?s' acts))" .
    from False Cons.prems have
      "(select_takes s act = [] \<and> keeper_vars ?s' = keeper_vars s)
       \<or> (\<exists>ts it. act = TakeInbound ts it \<and> select_takes s act = [Inbound ts it]
             \<and> keeper_vars ?s' = keeper_body a mar (keeper_vars s) ts it)"
      by (cases act; cases "keeper_at s"; simp add: select_takes_def split: if_splits)
    with IH show ?thesis
      by (auto simp: system_run_Cons)
  qed
qed

text \<open>
  A stop that finds the keeper waiting in its \<^verbatim>\<open>select\<close> on the manager's stop channel
  is taken: the loop returns with its variables as they were, so nothing more is saved.
\<close>
lemma stop_while_waiting_is_taken:
  assumes "keeper_at s = Waiting (Some c)" and "timekeeperStopCh (manager s) = Some c"
    and "timer (manager s) = Some t"
  shows "system_run a mar s [CallStopMasterService, TakeStop]
       = s\<lparr>manager := stopMasterService (manager s), keeper_at := Finished\<rparr>"
  using assms
  by (simp add: system_run_def stop_case_ready_def stopMasterService_def stop_eq)

text \<open>
  Once the field is nil and the keeper has not read a channel before, the stop case is
  never ready again: the loop returns only if the inbound channel is closed.
\<close>
lemma stop_case_disabled_step:
  assumes "timekeeperStopCh (manager s) = None"
    and "keeper_at s = Entering \<or> keeper_at s = Waiting None"
    and "act \<noteq> TakeInboundClosed"
  shows "timekeeperStopCh (manager (system_step a mar s act)) = None
       \<and> (keeper_at (system_step a mar s act) = Entering
            \<or> keeper_at (system_step a mar s act) = Waiting None)"
proof (cases act)
  case CallStopMasterService
  with assms show ?thesis
    by (cases "timer (manager s)") (simp_all add: stopMasterService_def stop_eq)
qed (use assms in \<open>auto simp: stop_case_ready_def\<close>)

lemma stop_case_disabled_for_good:
  assumes "timekeeperStopCh (manager s) = None"
    and "keeper_at s = Entering \<or> keeper_at s = Waiting None"
    and "TakeInboundClosed \<notin> set acts"
  shows "keeper_at (system_run a mar s acts) \<noteq> Finished"
  using assms
proof (induction acts arbitrary: s)
  case Nil
  then show ?case by (auto simp: system_run_def)
next
  case (Cons act acts)
  from Cons.prems have "act \<noteq> TakeInboundClosed" by auto
  from stop_case_disabled_step [OF Cons.prems(1,2) this, of a mar]
  have "timekeeperStopCh (manager (system_step a mar s act)) = None"
    and "keeper_at (system_step a mar s act) = Entering
            \<or> keeper_at (system_step a mar s act) = Waiting None"
    by simp_all
  moreover from Cons.prems have "TakeInboundClosed \<notin> set acts" by simp
  ultimately show ?case
    using Cons.IH [of "system_step a mar s act"] by (simp add: system_run_Cons)
qed


text \<open>
  C5, where the code leaves it. The claim has the loop return on the stop without a
  further save, and the comment in \<^verbatim>\<open>stopMasterServiceNoLock\<close> says the stop channel closes
  the keeper right away. Here the manager is started and the keeper takes a first
  timestamp and saves it; \<^verbatim>\<open>stopMasterService\<close> runs while the body of the loop runs: it
  closes channel 5 and sets \<^verbatim>\<open>timekeeperStopCh\<close> to nil; the keeper then enters its
  \<^verbatim>\<open>select\<close> and reads nil, so the stop case cannot be taken; a second timestamp arrives
  after the interval and is saved, after the stop; and the loop is still waiting.
\<close>
theorem stop_during_body_is_missed:
  "(let s = system_run (\<lambda>l t. l @ [t]) (\<lambda>t. Inr (Timestamp t))
       (keeper_spawned
          (fst (startMasterService 1000 None
             (fst (NewIndexManagerInternal None None None None))) :: nat world)
          5 (Inr []) [])
       [EnterSelect,
        TakeInbound \<lparr>StreamId = 1, Timestamp = [1]\<rparr>
          \<lparr>now_check = 10, persistInterval = 1000, set_err = None, now_saved = 11, now_id = 12\<rparr>,
        CallStopMasterService,
        EnterSelect,
        TakeStop,
        TakeInbound \<lparr>StreamId = 1, Timestamp = [2]\<rparr>
          \<lparr>now_check = 2000, persistInterval = 1000, set_err = None, now_saved = 2001,
           now_id = 2002\<rparr>,
        EnterSelect,
        TakeStop]
    in (keeper_at s, saves (made (keeper_vars s)), timekeeperStopCh (manager s),
        close_timekeeperStopCh 5 \<in> set (calls (manager s))))
   = (Waiting None,
      [([\<lparr>StreamId = 1, Timestamp = [1]\<rparr>], None),
       ([\<lparr>StreamId = 1, Timestamp = [1]\<rparr>, \<lparr>StreamId = 1, Timestamp = [2]\<rparr>], None)],
      None, True)"
  by (simp add: system_run_def keeper_spawned_def keeper_start_def keeper_body_def
      startMasterService_def NewIndexManagerInternal_def stopMasterService_def
      stopMasterServiceNoLock_def stop_case_ready_def Let_def)

text \<open>
  C9. \<^verbatim>\<open>Close\<close> can be called any number of times. On a manager that is not closed it
  stops the master services, closes the repository, the coordinator, the event manager
  and the request handler (each one when it is there) and sets \<^verbatim>\<open>isClosed\<close>; on a closed
  manager it changes nothing. \<^verbatim>\<open>IsClose\<close> is true after any \<^verbatim>\<open>Close\<close>.
\<close>
theorem Close_idempotent:
  "Close (Close m) = Close m
   \<and> isClosed (Close m)
   \<and> IsClose (Close m)
   \<and> (isClosed m \<longrightarrow> Close m = m)
   \<and> (\<not> isClosed m \<longrightarrow>
        Close m = (stopMasterServiceNoLock m)
          \<lparr>isClosed := True,
           calls := calls (stopMasterServiceNoLock m)
             @ (case repo m of Some r \<Rightarrow> [MetadataRepo_Close r] | None \<Rightarrow> [])
             @ (case coordinator m of Some c \<Rightarrow> [Coordinator_Terminate c] | None \<Rightarrow> [])
             @ (case eventMgr m of Some e \<Rightarrow> [eventManager_close e] | None \<Rightarrow> [])
             @ (case reqHandler m of Some h \<Rightarrow> [requestHandler_close h] | None \<Rightarrow> [])\<rparr>)
   \<and> (Close ^^ n) (Close m) = Close m"
proof (intro conjI impI)
  show closed: "isClosed (Close m)"
    by (cases "isClosed m") (simp_all add: Close_open, simp add: Close_def)
  then show "IsClose (Close m)"
    by (simp add: IsClose_def)
  show twice: "Close (Close m) = Close m"
    using closed by (simp add: Close_def)
  show "(Close ^^ n) (Close m) = Close m"
    by (induction n) (simp_all add: twice)
  show "Close m = m" if "isClosed m"
    using that by (simp add: Close_def)
  show "Close m = (stopMasterServiceNoLock m)
          \<lparr>isClosed := True,
           calls := calls (stopMasterServiceNoLock m)
             @ (case repo m of Some r \<Rightarrow> [MetadataRepo_Close r] | None \<Rightarrow> [])
             @ (case coordinator m of Some c \<Rightarrow> [Coordinator_Terminate c] | None \<Rightarrow> [])
             @ (case eventMgr m of Some e \<Rightarrow> [eventManager_close e] | None \<Rightarrow> [])
             @ (case reqHandler m of Some h \<Rightarrow> [requestHandler_close h] | None \<Rightarrow> [])\<rparr>"
    if "\<not> isClosed m"
    using that by (rule Close_open)
qed

theorem Close_witness:
  "calls (Close (fst (startMasterService 1000 None
      (fst (NewIndexManagerInternal None None None None))) :: nat world))
    = [NewMetadataRepo 0, NewRequestHandler 1, newEventManager 2, NewCoordinator 3,
       go_Coordinator_Run 3, newTimer 4, make_timekeeperStopCh 5, go_runTimestampKeeper,
       NewStreamMonitor, NewProjectorAdmin, NewMgrMutHandler, NewStreamManager 6,
       StreamManager_StartHandlingTopologyChange 6,
       StreamManager_Close 6, Timer_stopAll 4, close_timekeeperStopCh 5,
       MetadataRepo_Close 0, Coordinator_Terminate 3, eventManager_close 2,
       requestHandler_close 1]
   \<and> Close (Close (fst (startMasterService 1000 None
      (fst (NewIndexManagerInternal None None None None))) :: nat world))
     = Close (fst (startMasterService 1000 None
      (fst (NewIndexManagerInternal None None None None))))"
proof -
  let ?m = "fst (startMasterService 1000 None (fst (NewIndexManagerInternal None None None None)))
         :: nat world"
  have m: "?m = \<lparr>repo = Some 0, coordinator = Some 3, reqHandler = Some 1, eventMgr = Some 2,
      streamMgr = Some 6, admin = None, timer = Some 4, timestampCh = Map.empty,
      timekeeperStopCh = Some 5, timestampPersistInterval = 1000, isClosed = False,
      tsChans = Map.empty, nextRef = 7,
      calls = [NewMetadataRepo 0, NewRequestHandler 1, newEventManager 2, NewCoordinator 3,
       go_Coordinator_Run 3, newTimer 4, make_timekeeperStopCh 5, go_runTimestampKeeper,
       NewStreamMonitor, NewProjectorAdmin, NewMgrMutHandler, NewStreamManager 6,
       StreamManager_StartHandlingTopologyChange 6]\<rparr>"
    by (simp add: startMasterService_def NewIndexManagerInternal_def Let_def)
  have open_m: "\<not> isClosed ?m" by (simp add: m)
  note inst = Close_idempotent [of ?m 1]
  from inst have twice: "Close (Close ?m) = Close ?m" by (rule conjunct1)
  from inst have "\<not> isClosed ?m \<longrightarrow>
        Close ?m = (stopMasterServiceNoLock ?m)
          \<lparr>isClosed := True,
           calls := calls (stopMasterServiceNoLock ?m)
             @ (case repo ?m of Some r \<Rightarrow> [MetadataRepo_Close r] | None \<Rightarrow> [])
             @ (case coordinator ?m of Some c \<Rightarrow> [Coordinator_Terminate c] | None \<Rightarrow> [])
             @ (case eventMgr ?m of Some e \<Rightarrow> [eventManager_close e] | None \<Rightarrow> [])
             @ (case reqHandler ?m of Some h \<Rightarrow> [requestHandler_close h] | None \<Rightarrow> [])\<rparr>"
    by blast
  with open_m have "calls (Close ?m) = calls (stopMasterServiceNoLock ?m)
             @ (case repo ?m of Some r \<Rightarrow> [MetadataRepo_Close r] | None \<Rightarrow> [])
             @ (case coordinator ?m of Some c \<Rightarrow> [Coordinator_Terminate c] | None \<Rightarrow> [])
             @ (case eventMgr ?m of Some e \<Rightarrow> [eventManager_close e] | None \<Rightarrow> [])
             @ (case reqHandler ?m of Some h \<Rightarrow> [requestHandler_close h] | None \<Rightarrow> [])"
    by simp
  then have "calls (Close ?m) = [NewMetadataRepo 0, NewRequestHandler 1, newEventManager 2, NewCoordinator 3,
       go_Coordinator_Run 3, newTimer 4, make_timekeeperStopCh 5, go_runTimestampKeeper,
       NewStreamMonitor, NewProjectorAdmin, NewMgrMutHandler, NewStreamManager 6,
       StreamManager_StartHandlingTopologyChange 6,
       StreamManager_Close 6, Timer_stopAll 4, close_timekeeperStopCh 5,
       MetadataRepo_Close 0, Coordinator_Terminate 3, eventManager_close 2,
       requestHandler_close 1]"
    by (simp add: m stop_eq)
  then show ?thesis using twice by (rule conjI)
qed

text \<open>
  C10. \<^verbatim>\<open>startMasterService\<close> sets \<^verbatim>\<open>timestampPersistInterval\<close> to
  \<^verbatim>\<open>TIMESTAMP_PERSIST_INTERVAL\<close> whatever it was: a value given to
  \<^verbatim>\<open>SetTimestampPersistenceInterval\<close> before the start leaves no trace in the manager after
  it, also across a stop, and a value given after the start stays.
\<close>
theorem startMasterService_resets_interval:
  "timestampPersistInterval (fst (startMasterService p e (SetTimestampPersistenceInterval v m))) = p
   \<and> fst (startMasterService p e (SetTimestampPersistenceInterval v m))
       = fst (startMasterService p e m)
   \<and> timestampPersistInterval (SetTimestampPersistenceInterval v (fst (startMasterService p e m))) = v
   \<and> timestampPersistInterval (stopMasterService (SetTimestampPersistenceInterval v m)) = v
   \<and> timestampPersistInterval
        (fst (startMasterService p e (stopMasterService (SetTimestampPersistenceInterval v m)))) = p"
proof (intro conjI)
  show "timestampPersistInterval (fst (startMasterService p e (SetTimestampPersistenceInterval v m))) = p"
    by (rule start_interval)
  show "fst (startMasterService p e (SetTimestampPersistenceInterval v m))
       = fst (startMasterService p e m)"
    by (rule start_after_Set)
  show "timestampPersistInterval (SetTimestampPersistenceInterval v (fst (startMasterService p e m))) = v"
    by (simp add: SetTimestampPersistenceInterval_def)
  show "timestampPersistInterval (stopMasterService (SetTimestampPersistenceInterval v m)) = v"
    by (simp add: stopMasterService_def stop_interval) (simp add: SetTimestampPersistenceInterval_def)
  show "timestampPersistInterval
        (fst (startMasterService p e (stopMasterService (SetTimestampPersistenceInterval v m)))) = p"
    by (rule start_interval)
qed

theorem startMasterService_resets_witness:
  "timestampPersistInterval (fst (startMasterService 1000 None
      (SetTimestampPersistenceInterval 5
        (fst (NewIndexManagerInternal None None None None) :: nat world)))) = 1000
   \<and> timestampPersistInterval (SetTimestampPersistenceInterval 5 (fst (startMasterService 1000 None
        (fst (NewIndexManagerInternal None None None None) :: nat world)))) = 5"
  using startMasterService_resets_interval [of 1000 None 5
      "fst (NewIndexManagerInternal None None None None) :: nat world"]
  by blast

subsection \<open>The timestamp channels\<close>

lemma Get_present:
  "timestampCh m sid = Some ch \<Longrightarrow> GetStabilityTimestampChannel n sid m = (ch, m)"
  by (simp add: GetStabilityTimestampChannel_def)

lemma Get_registers:
  "timestampCh (snd (GetStabilityTimestampChannel n sid m)) sid
     = Some (fst (GetStabilityTimestampChannel n sid m))"
  by (cases "timestampCh m sid") (simp_all add: GetStabilityTimestampChannel_def Let_def)

lemma Get_keeps:
  "timestampCh m sid = Some ch \<Longrightarrow>
     timestampCh (snd (GetStabilityTimestampChannel n sid' m)) sid = Some ch"
  by (cases "timestampCh m sid'") (auto simp: GetStabilityTimestampChannel_def Let_def)

lemma Get_keeps_many:
  "timestampCh m sid = Some ch \<Longrightarrow>
     timestampCh (foldl (\<lambda>w s. snd (GetStabilityTimestampChannel n s w)) m sids) sid = Some ch"
  by (induction sids arbitrary: m) (simp_all add: Get_keeps)

text \<open>
  C8. \<^verbatim>\<open>GetStabilityTimestampChannel\<close> gives one channel per stream. The first call for a
  stream makes a new channel of capacity \<^verbatim>\<open>TIMESTAMP_NOTIFY_CH_SIZE\<close>, empty and open, at a
  reference no stream had, and stores it; every later call for that stream, also after
  calls for other streams, returns the stored channel and leaves the manager as it is.
\<close>
theorem GetStabilityTimestampChannel_idempotent:
  assumes inv: "chans_inv n m"
    and first: "GetStabilityTimestampChannel n sid m = (ch, m1)"
  shows "GetStabilityTimestampChannel n sid m1 = (ch, m1)
    \<and> GetStabilityTimestampChannel n sid
          (foldl (\<lambda>w s. snd (GetStabilityTimestampChannel n s w)) m1 sids)
        = (ch, foldl (\<lambda>w s. snd (GetStabilityTimestampChannel n s w)) m1 sids)
    \<and> timestampCh m1 sid = Some ch
    \<and> (timestampCh m sid = None \<longrightarrow>
          tsChans m ch = None
          \<and> (\<forall>s. timestampCh m s \<noteq> Some ch)
          \<and> tsChans m1 ch = Some \<lparr>capacity = n, buffer = [], closed = False\<rparr>
          \<and> m1 = m\<lparr>timestampCh := (timestampCh m)(sid \<mapsto> ch),
                    tsChans := (tsChans m)(ch \<mapsto> \<lparr>capacity = n, buffer = [], closed = False\<rparr>),
                    nextRef := Suc ch\<rparr>)
    \<and> (timestampCh m sid \<noteq> None \<longrightarrow> m1 = m \<and> timestampCh m sid = Some ch)"
proof -
  have stored: "timestampCh m1 sid = Some ch"
    using Get_registers [of n sid m] first by simp
  then have again: "GetStabilityTimestampChannel n sid m1 = (ch, m1)"
    by (rule Get_present)
  have later: "GetStabilityTimestampChannel n sid
          (foldl (\<lambda>w s. snd (GetStabilityTimestampChannel n s w)) m1 sids)
        = (ch, foldl (\<lambda>w s. snd (GetStabilityTimestampChannel n s w)) m1 sids)"
    using stored by (intro Get_present Get_keeps_many)
  have present: "m1 = m \<and> timestampCh m sid = Some ch" if "timestampCh m sid \<noteq> None"
    using that first by (auto simp: GetStabilityTimestampChannel_def)
  have absent: "tsChans m ch = None
          \<and> (\<forall>s. timestampCh m s \<noteq> Some ch)
          \<and> tsChans m1 ch = Some \<lparr>capacity = n, buffer = [], closed = False\<rparr>
          \<and> m1 = m\<lparr>timestampCh := (timestampCh m)(sid \<mapsto> ch),
                    tsChans := (tsChans m)(ch \<mapsto> \<lparr>capacity = n, buffer = [], closed = False\<rparr>),
                    nextRef := Suc ch\<rparr>"
    if none: "timestampCh m sid = None"
  proof -
    from none first have ch: "ch = nextRef m"
      and m1: "m1 = m\<lparr>timestampCh := (timestampCh m)(sid \<mapsto> ch),
                    tsChans := (tsChans m)(ch \<mapsto> \<lparr>capacity = n, buffer = [], closed = False\<rparr>),
                    nextRef := Suc ch\<rparr>"
      by (auto simp: GetStabilityTimestampChannel_def Let_def)
    from inv have below: "\<And>r. r \<in> dom (tsChans m) \<Longrightarrow> r < nextRef m"
      and reg: "\<And>s r. timestampCh m s = Some r \<Longrightarrow> r \<in> dom (tsChans m)"
      unfolding chans_inv_def by blast+
    have fresh: "tsChans m ch = None"
      using below [of ch] ch by (cases "tsChans m ch") auto
    have unused: "\<forall>s. timestampCh m s \<noteq> Some ch"
      using reg fresh by blast
    have made_ch: "tsChans m1 ch = Some \<lparr>capacity = n, buffer = [], closed = False\<rparr>"
      by (subst m1) simp
    show ?thesis using fresh unused made_ch m1 by blast
  qed
  show ?thesis using stored again later present absent by blast
qed

theorem GetStabilityTimestampChannel_witness:
  "GetStabilityTimestampChannel 2 7
      (snd (GetStabilityTimestampChannel 2 7
         (fst (NewIndexManagerInternal None None None None) :: nat world)))
   = (4, snd (GetStabilityTimestampChannel 2 7
         (fst (NewIndexManagerInternal None None None None))))
   \<and> tsChans (snd (GetStabilityTimestampChannel 2 7
         (fst (NewIndexManagerInternal None None None None) :: nat world))) 4
     = Some \<lparr>capacity = 2, buffer = [], closed = False\<rparr>"
proof -
  let ?m = "fst (NewIndexManagerInternal None None None None) :: nat world"
  have inv: "chans_inv 2 ?m" by (rule chans_inv_new)
  have m: "?m = \<lparr>repo = Some 0, coordinator = Some 3, reqHandler = Some 1, eventMgr = Some 2,
      streamMgr = None, admin = None, timer = None, timestampCh = Map.empty,
      timekeeperStopCh = None, timestampPersistInterval = 0, isClosed = False,
      tsChans = Map.empty, nextRef = 4,
      calls = [NewMetadataRepo 0, NewRequestHandler 1, newEventManager 2, NewCoordinator 3,
       go_Coordinator_Run 3]\<rparr>"
    by (simp add: NewIndexManagerInternal_def Let_def)
  have none: "timestampCh ?m 7 = None" by (simp add: m)
  have first: "GetStabilityTimestampChannel 2 7 ?m = (4, snd (GetStabilityTimestampChannel 2 7 ?m))"
    by (simp add: m GetStabilityTimestampChannel_def Let_def)
  from GetStabilityTimestampChannel_idempotent [OF inv first, of "[]"] none
  show ?thesis by blast
qed

text \<open>
  C6. \<^verbatim>\<open>notifyNewTimestamp\<close> returns: it neither waits nor panics. It sends the unmarshalled
  timestamp on the channel of the stream exactly when unmarshalling succeeds, a channel is
  registered for the stream and the channel holds fewer than \<^verbatim>\<open>TIMESTAMP_NOTIFY_CH_SIZE\<close>
  elements; in every other case the timestamp is dropped and the manager is unchanged.
  The function body runs alone here, with no other sender between the test of the
  length and the send.
\<close>
theorem notifyNewTimestamp_never_blocks:
  assumes inv: "chans_inv n m"
  shows "\<exists>m'. notifyNewTimestamp cv un n w m = Inr m' \<and> chans_inv n m' \<and>
     (case un (Timestamp w) of
        Inl err \<Rightarrow> m' = m
      | Inr ts \<Rightarrow>
          (case timestampCh m (cv (StreamId w)) of
             None \<Rightarrow> m' = m
           | Some ch \<Rightarrow>
               (\<exists>c. tsChans m ch = Some c \<and>
                  (if length (buffer c) < n
                   then m' = m\<lparr>tsChans := (tsChans m)(ch \<mapsto> c\<lparr>buffer := buffer c @ [ts]\<rparr>)\<rparr>
                   else m' = m))))"
proof (cases "un (Timestamp w)")
  case (Inl err)
  then have "notifyNewTimestamp cv un n w m = Inr m"
    by (simp add: notifyNewTimestamp_def)
  with Inl inv show ?thesis by simp
next
  case (Inr ts)
  show ?thesis
  proof (cases "timestampCh m (cv (StreamId w))")
    case None
    with Inr have "notifyNewTimestamp cv un n w m = Inr m"
      by (simp add: notifyNewTimestamp_def)
    with Inr None inv show ?thesis by simp
  next
    case (Some ch)
    with inv obtain c where c: "tsChans m ch = Some c" "capacity c = n" "\<not> closed c"
      unfolding chans_inv_def by blast
    show ?thesis
    proof (cases "length (buffer c) < n")
      case True
      let ?m' = "m\<lparr>tsChans := (tsChans m)(ch \<mapsto> c\<lparr>buffer := buffer c @ [ts]\<rparr>)\<rparr>"
      from Inr Some c True have sent: "notifyNewTimestamp cv un n w m = Inr ?m'"
        by (simp add: notifyNewTimestamp_def chan_send_def)
      with inv have "chans_inv n ?m'" by (rule chans_inv_notify)
      with sent Inr Some c True show ?thesis by simp
    next
      case False
      with Inr Some c have "notifyNewTimestamp cv un n w m = Inr m"
        by (simp add: notifyNewTimestamp_def)
      with Inr Some c False inv show ?thesis by simp
    qed
  qed
qed

theorem notifyNewTimestamp_witness:
  "notifyNewTimestamp (\<lambda>x. x) Inr 2 \<lparr>StreamId = 7, Timestamp = [1]\<rparr>
      (\<lparr>repo = Some 0, coordinator = Some 3, reqHandler = Some 1, eventMgr = Some 2,
       streamMgr = None, admin = None, timer = None, timestampCh = [7 \<mapsto> 4],
       timekeeperStopCh = None, timestampPersistInterval = 0, isClosed = False,
       tsChans = [4 \<mapsto> \<lparr>capacity = 2, buffer = [[9]], closed = False\<rparr>], nextRef = 5,
       calls = []\<rparr> :: bytes world)
    = Inr \<lparr>repo = Some 0, coordinator = Some 3, reqHandler = Some 1, eventMgr = Some 2,
       streamMgr = None, admin = None, timer = None, timestampCh = [7 \<mapsto> 4],
       timekeeperStopCh = None, timestampPersistInterval = 0, isClosed = False,
       tsChans = [4 \<mapsto> \<lparr>capacity = 2, buffer = [[9], [1]], closed = False\<rparr>], nextRef = 5,
       calls = []\<rparr>
   \<and> notifyNewTimestamp (\<lambda>x. x) Inr 2 \<lparr>StreamId = 7, Timestamp = [2]\<rparr>
      (\<lparr>repo = Some 0, coordinator = Some 3, reqHandler = Some 1, eventMgr = Some 2,
       streamMgr = None, admin = None, timer = None, timestampCh = [7 \<mapsto> 4],
       timekeeperStopCh = None, timestampPersistInterval = 0, isClosed = False,
       tsChans = [4 \<mapsto> \<lparr>capacity = 2, buffer = [[9], [1]], closed = False\<rparr>], nextRef = 5,
       calls = []\<rparr> :: bytes world)
    = Inr \<lparr>repo = Some 0, coordinator = Some 3, reqHandler = Some 1, eventMgr = Some 2,
       streamMgr = None, admin = None, timer = None, timestampCh = [7 \<mapsto> 4],
       timekeeperStopCh = None, timestampPersistInterval = 0, isClosed = False,
       tsChans = [4 \<mapsto> \<lparr>capacity = 2, buffer = [[9], [1]], closed = False\<rparr>], nextRef = 5,
       calls = []\<rparr>"
proof -
  let ?m0 = "\<lparr>repo = Some 0, coordinator = Some 3, reqHandler = Some 1, eventMgr = Some 2,
       streamMgr = None, admin = None, timer = None, timestampCh = [7 \<mapsto> 4],
       timekeeperStopCh = None, timestampPersistInterval = 0, isClosed = False,
       tsChans = [4 \<mapsto> \<lparr>capacity = 2, buffer = [[9]], closed = False\<rparr>], nextRef = 5,
       calls = []\<rparr> :: bytes world"
  let ?m1 = "\<lparr>repo = Some 0, coordinator = Some 3, reqHandler = Some 1, eventMgr = Some 2,
       streamMgr = None, admin = None, timer = None, timestampCh = [7 \<mapsto> 4],
       timekeeperStopCh = None, timestampPersistInterval = 0, isClosed = False,
       tsChans = [4 \<mapsto> \<lparr>capacity = 2, buffer = [[9], [1]], closed = False\<rparr>], nextRef = 5,
       calls = []\<rparr> :: bytes world"
  have inv0: "chans_inv 2 ?m0"
    by (auto simp: chans_inv_def split: if_splits)
  from notifyNewTimestamp_never_blocks [OF inv0, of "\<lambda>x. x" Inr "\<lparr>StreamId = 7, Timestamp = [1]\<rparr>"]
  obtain m' where first: "notifyNewTimestamp (\<lambda>x. x) Inr 2 \<lparr>StreamId = 7, Timestamp = [1]\<rparr> ?m0 = Inr m'"
    and inv1: "chans_inv 2 m'" and m': "m' = ?m1"
    by auto
  from notifyNewTimestamp_never_blocks [OF inv1, of "\<lambda>x. x" Inr "\<lparr>StreamId = 7, Timestamp = [2]\<rparr>"]
  have second: "notifyNewTimestamp (\<lambda>x. x) Inr 2 \<lparr>StreamId = 7, Timestamp = [2]\<rparr> m' = Inr m'"
    by (auto simp: m')
  from first second show ?thesis unfolding m' by (rule conjI)
qed

subsection \<open>Stability timestamps\<close>























end
